theory Spec2Isabelle
  imports Complex_Main
begin

section \<open>The values of the runtime\<close>

text \<open>
  The hook \<open>useSafeSearchParams\<close> (src/hooks/useSafeSearchParams.tsx) is glue over three
  things the JavaScript runtime and the zod library provide: \<open>URLSearchParams\<close>,
  \<open>JSON.stringify\<close> and \<open>schema.parse\<close>. None of them is part of the repository. Each is
  modelled from its own definition: ECMAScript for \<open>Number\<close>, \<open>Boolean\<close>, \<open>Object.fromEntries\<close>
  and \<open>JSON.stringify\<close>, the URL Standard for \<open>URLSearchParams\<close>, and the parsing code of
  zod 3 for the schemas; in each case this refines what the specification says of the
  operation (sections 3, 4.1 and 6). The two functions of the hook, \<open>safeSearchParams\<close> and
  \<open>createSafeURL\<close>, and the schema of the page are translated from the sources. This
  section models the values that all of them exchange.

  Strings are modelled as the sequence of their UTF-8 bytes (\<open>string\<close>); the percent
  encoding of a query string and the quoting of \<open>JSON.stringify\<close> both work byte by byte
  on a well-formed string.

  A Number is NaN, an infinity, or a finite value, kept as the rational it denotes
  (\<open>-0\<close> is identified with \<open>0\<close>: no comparison and no JSON text tells them apart).
  The values are the primitive ones; arrays and objects as values of a field are not
  modelled.
\<close>

datatype jsnum = NaN | PInf | NInf | Fin rat

datatype jsval = JUndefined | JNull | JBool bool | JNum jsnum | JStr string

text \<open>The comparisons \<open>a < b\<close> and \<open>a <= b\<close> of two Numbers: false when either is NaN.\<close>

fun num_lt :: "jsnum \<Rightarrow> jsnum \<Rightarrow> bool" where
  "num_lt NaN _ = False"
| "num_lt _ NaN = False"
| "num_lt (Fin a) (Fin b) = (a < b)"
| "num_lt NInf PInf = True"
| "num_lt NInf (Fin _) = True"
| "num_lt (Fin _) PInf = True"
| "num_lt _ _ = False"

definition num_le :: "jsnum \<Rightarrow> jsnum \<Rightarrow> bool" where
  "num_le a b = (a \<noteq> NaN \<and> b \<noteq> NaN \<and> \<not> num_lt b a)"

subsection \<open>Decimal digits\<close>

definition is_digit :: "char \<Rightarrow> bool" where
  "is_digit c = (c \<in> set ''0123456789'')"

definition digit_value :: "char \<Rightarrow> nat" where
  "digit_value c = of_char c - 48"

definition digit_char :: "nat \<Rightarrow> char" where
  "digit_char d = ''0123456789'' ! d"

fun decimal_value :: "nat \<Rightarrow> string \<Rightarrow> nat option" where
  "decimal_value acc [] = Some acc"
| "decimal_value acc (c # cs) =
     (if is_digit c then decimal_value (10 * acc + digit_value c) cs else None)"

text \<open>An optional sign followed by one or more decimal digits, and nothing else.\<close>

definition signed_decimal :: "string \<Rightarrow> int option" where
  "signed_decimal s =
     (case s of
        [] \<Rightarrow> None
      | c # cs \<Rightarrow>
          if c = CHR ''-'' then (if cs = [] then None else map_option (\<lambda>n. - int n) (decimal_value 0 cs))
          else if c = CHR ''+'' then (if cs = [] then None else map_option int (decimal_value 0 cs))
          else map_option int (decimal_value 0 s))"

fun decimal_digits :: "nat \<Rightarrow> string" where
  "decimal_digits n =
     (if n < 10 then [digit_char n] else decimal_digits (n div 10) @ [digit_char (n mod 10)])"

declare decimal_digits.simps [simp del]

subsection \<open>Conversions between strings and Numbers\<close>

text \<open>
  \<open>Number(s)\<close> on a string. A signed run of decimal digits whose value is below \<open>2^53\<close> in
  magnitude denotes exactly that integer. Every other string (fractions, exponents,
  radix prefixes, surrounding white space, \<open>Infinity\<close>, larger integers that are rounded
  to a double, and the text that is no numeric literal and gives NaN) is left to
  \<open>rest\<close>, the conversion of the runtime, which the model takes as a parameter.
\<close>

definition StringToNumber :: "(string \<Rightarrow> jsnum) \<Rightarrow> string \<Rightarrow> jsnum" where
  "StringToNumber rest s =
     (case signed_decimal s of
        Some n \<Rightarrow> if \<bar>n\<bar> < 2 ^ 53 then Fin (of_int n) else rest s
      | None \<Rightarrow> rest s)"

text \<open>\<open>Number(v)\<close>, the coercion that \<open>z.coerce.number()\<close> applies to its input.\<close>

fun Number :: "(string \<Rightarrow> jsnum) \<Rightarrow> jsval \<Rightarrow> jsnum" where
  "Number rest JUndefined = NaN"
| "Number rest JNull = Fin 0"
| "Number rest (JBool b) = (if b then Fin 1 else Fin 0)"
| "Number rest (JNum n) = n"
| "Number rest (JStr s) = StringToNumber rest s"

text \<open>\<open>Boolean(v)\<close>, the coercion that \<open>z.coerce.boolean()\<close> applies to its input.\<close>

fun Boolean :: "jsval \<Rightarrow> bool" where
  "Boolean JUndefined = False"
| "Boolean JNull = False"
| "Boolean (JBool b) = b"
| "Boolean (JNum n) = (n \<noteq> NaN \<and> n \<noteq> Fin 0)"
| "Boolean (JStr s) = (s \<noteq> [])"

text \<open>
  The text of a finite Number. An integer below \<open>2^53\<close> in magnitude is written with all
  its decimal digits; the text of every other finite value (the shortest digits that
  read back as the same double) is left to \<open>tostr\<close>, a parameter.
\<close>

definition NumberToString :: "(rat \<Rightarrow> string) \<Rightarrow> rat \<Rightarrow> string" where
  "NumberToString tostr q =
     (if q = of_int \<lfloor>q\<rfloor> \<and> \<bar>\<lfloor>q\<rfloor>\<bar> < 2 ^ 53
      then (if \<lfloor>q\<rfloor> < 0 then CHR ''-'' # decimal_digits (nat (- \<lfloor>q\<rfloor>)) else decimal_digits (nat \<lfloor>q\<rfloor>))
      else tostr q)"

subsection \<open>JSON.stringify\<close>

definition hex_digit :: "string \<Rightarrow> nat \<Rightarrow> char" where
  "hex_digit alphabet d = alphabet ! d"

text \<open>
  The quoting of one character of a string: the two-character escapes, \<open>\u00hh\<close> in lower
  case for the other control characters, and the character itself otherwise.
\<close>

definition QuoteJSONChar :: "char \<Rightarrow> string" where
  "QuoteJSONChar c =
     (if c = CHR 0x08 then [CHR 0x5C, CHR ''b'']
      else if c = CHR 0x09 then [CHR 0x5C, CHR ''t'']
      else if c = CHR 0x0A then [CHR 0x5C, CHR ''n'']
      else if c = CHR 0x0C then [CHR 0x5C, CHR ''f'']
      else if c = CHR 0x0D then [CHR 0x5C, CHR ''r'']
      else if c = CHR 0x22 then [CHR 0x5C, CHR 0x22]
      else if c = CHR 0x5C then [CHR 0x5C, CHR 0x5C]
      else if (of_char c :: nat) < 32
        then [CHR 0x5C, CHR ''u'', CHR ''0'', CHR ''0'',
              hex_digit ''0123456789abcdef'' (of_char c div 16),
              hex_digit ''0123456789abcdef'' (of_char c mod 16)]
      else [c])"

definition QuoteJSONString :: "string \<Rightarrow> string" where
  "QuoteJSONString s = CHR 0x22 # concat (map QuoteJSONChar s) @ [CHR 0x22]"

text \<open>
  \<open>JSON.stringify(v)\<close> returns a string, or \<open>undefined\<close> (here \<open>None\<close>) when \<open>v\<close> is
  \<open>undefined\<close>. A Number that is not finite has the text \<open>null\<close>.
\<close>

fun JSON_stringify :: "(rat \<Rightarrow> string) \<Rightarrow> jsval \<Rightarrow> string option" where
  "JSON_stringify tostr JUndefined = None"
| "JSON_stringify tostr JNull = Some ''null''"
| "JSON_stringify tostr (JBool b) = Some (if b then ''true'' else ''false'')"
| "JSON_stringify tostr (JNum (Fin q)) = Some (NumberToString tostr q)"
| "JSON_stringify tostr (JNum _) = Some ''null''"
| "JSON_stringify tostr (JStr s) = Some (QuoteJSONString s)"

text \<open>
  An argument of a method that takes a string is converted to one; \<open>undefined\<close> becomes
  the text \<open>undefined\<close>.
\<close>

definition ToUSVString :: "string option \<Rightarrow> string" where
  "ToUSVString v = (case v of None \<Rightarrow> ''undefined'' | Some s \<Rightarrow> s)"

section \<open>URLSearchParams\<close>

text \<open>
  A \<open>URLSearchParams\<close> object holds a list of name-value pairs, in order, where a name may
  occur more than once. The objects live in a heap: the hook receives a reference to
  the object of the current URL, and \<open>new URLSearchParams(init)\<close> allocates a further one.
  The addresses below \<open>free\<close> are those of the objects allocated so far.
\<close>

type_synonym entries = "(string \<times> string) list"

type_synonym addr = nat

record heap =
  objs :: "addr \<Rightarrow> entries"
  free :: addr

text \<open>\<open>new URLSearchParams(init)\<close> for an \<open>init\<close> that is itself such an object: a new
  object with a copy of its pairs.\<close>

definition new_URLSearchParams :: "addr \<Rightarrow> heap \<Rightarrow> addr \<times> heap" where
  "new_URLSearchParams init h =
     (free h, h\<lparr>objs := (objs h)(free h := objs h init), free := Suc (free h)\<rparr>)"

text \<open>
  \<open>set(name, value)\<close>: if the list has pairs of that name, the first one takes the value
  and the others are removed; otherwise a new pair is appended.
\<close>

fun set_first :: "string \<Rightarrow> string \<Rightarrow> entries \<Rightarrow> entries" where
  "set_first name value [] = []"
| "set_first name value ((n, v) # es) =
     (if n = name then (n, value) # filter (\<lambda>(n', v'). n' \<noteq> name) es
      else (n, v) # set_first name value es)"

definition set_entries :: "string \<Rightarrow> string \<Rightarrow> entries \<Rightarrow> entries" where
  "set_entries name value es =
     (if name \<in> fst ` set es then set_first name value es else es @ [(name, value)])"

definition URLSearchParams_set :: "addr \<Rightarrow> string \<Rightarrow> string \<Rightarrow> heap \<Rightarrow> heap" where
  "URLSearchParams_set this name value h =
     h\<lparr>objs := (objs h)(this := set_entries name value (objs h this))\<rparr>"

text \<open>
  \<open>toString()\<close>: the application/x-www-form-urlencoded serialisation. A byte is kept when
  it is an ASCII letter or digit or one of \<open>* - . _\<close>, a space becomes \<open>+\<close>, and every other
  byte becomes \<open>%\<close> and its two upper-case hexadecimal digits.
\<close>

definition urlencoded_keep :: "char \<Rightarrow> bool" where
  "urlencoded_keep c =
     (c \<in> set ''ABCDEFGHIJKLMNOPQRSTUVWXYZabcdefghijklmnopqrstuvwxyz0123456789*-._'')"

definition urlencode_byte :: "char \<Rightarrow> string" where
  "urlencode_byte c =
     (if c = CHR '' '' then ''+''
      else if urlencoded_keep c then [c]
      else [CHR ''%'', hex_digit ''0123456789ABCDEF'' (of_char c div 16),
            hex_digit ''0123456789ABCDEF'' (of_char c mod 16)])"

definition urlencode :: "string \<Rightarrow> string" where
  "urlencode s = concat (map urlencode_byte s)"

fun join_amp :: "string list \<Rightarrow> string" where
  "join_amp [] = []"
| "join_amp [p] = p"
| "join_amp (p # q # ps) = p @ ''&'' @ join_amp (q # ps)"

definition serialize :: "entries \<Rightarrow> string" where
  "serialize es = join_amp (map (\<lambda>(n, v). urlencode n @ ''='' @ urlencode v) es)"

definition URLSearchParams_toString :: "addr \<Rightarrow> heap \<Rightarrow> string" where
  "URLSearchParams_toString this h = serialize (objs h this)"

section \<open>createSafeURL\<close>

text \<open>
  \<^verbatim>\<open>
  (newParams) => {
    const updatedParams = new URLSearchParams(searchParams);
    for (const key in newParams) {
      updatedParams.set(key, JSON.stringify(newParams[key]));
    }
    return pathname + '?' + updatedParams.toString();
  }
  \<close>
  \<open>pathname\<close> and \<open>searchParams\<close> are what the hooks of the host give for the current URL.
  \<open>newParams\<close> is the object of the partial update, given as the list of its enumerable
  keys, in the order in which \<open>for ... in\<close> visits them, each with its value. The function
  returns the URL and the heap it leaves behind.
\<close>

definition createSafeURL ::
  "(rat \<Rightarrow> string) \<Rightarrow> string \<Rightarrow> addr \<Rightarrow> (string \<times> jsval) list \<Rightarrow> heap \<Rightarrow> string \<times> heap" where
  "createSafeURL tostr pathname searchParams newParams h =
     (let (updatedParams, h1) = new_URLSearchParams searchParams h;
          h2 = foldl (\<lambda>h' (key, v).
                 URLSearchParams_set updatedParams key (ToUSVString (JSON_stringify tostr v)) h')
                 h1 newParams
      in (pathname @ ''?'' @ URLSearchParams_toString updatedParams h2, h2))"

section \<open>Plain objects\<close>

text \<open>
  A plain object is modelled by its own properties, in the order of their creation.
  Reading a property that the object does not have gives \<open>undefined\<close>. The names that
  every object inherits from \<open>Object.prototype\<close> (\<open>constructor\<close>, \<open>toString\<close>, \<open>__proto__\<close>
  and the like) are not modelled: the names of query parameters and of schema fields
  are taken to be ordinary names.
\<close>

type_synonym jsobj = "(string \<times> jsval) list"

definition obj_get :: "jsobj \<Rightarrow> string \<Rightarrow> jsval" where
  "obj_get obj key = (case map_of obj key of None \<Rightarrow> JUndefined | Some v \<Rightarrow> v)"

definition obj_has :: "jsobj \<Rightarrow> string \<Rightarrow> bool" where
  "obj_has obj key = (key \<in> fst ` set obj)"

fun obj_set :: "jsobj \<Rightarrow> string \<Rightarrow> jsval \<Rightarrow> jsobj" where
  "obj_set [] key v = [(key, v)]"
| "obj_set ((k, w) # ps) key v = (if k = key then (k, v) # ps else (k, w) # obj_set ps key v)"

text \<open>
  \<open>Object.fromEntries(searchParams)\<close> visits the pairs in order and defines, for each, the
  property of that name, overwriting one defined before.
\<close>

definition Object_fromEntries :: "entries \<Rightarrow> jsobj" where
  "Object_fromEntries es = foldl (\<lambda>obj (name, value). obj_set obj name (JStr value)) [] es"

section \<open>The schemas of zod\<close>

text \<open>
  The schema is an object of the zod library (version 3). The model covers the types
  that this repository builds, in src/app/page.tsx and in the README:
  \<open>z.coerce.number()\<close> with its \<open>min\<close> and \<open>max\<close> checks, \<open>z.any()\<close>, \<open>z.any().transform(f)\<close>,
  \<open>a.or(b)\<close> and \<open>z.object({...})\<close> in its default mode, which drops the keys that the shape
  does not name; together with \<open>z.coerce.boolean()\<close>, a coerced type of the same library
  that accepts every input, a missing one included. An issue is kept as its code and
  its path.
\<close>

datatype zissue =
    invalid_type "string list"
  | too_small "string list"
  | too_big "string list"
  | invalid_union "string list" "zissue list list"

fun path :: "zissue \<Rightarrow> string list" where
  "path (invalid_type p) = p"
| "path (too_small p) = p"
| "path (too_big p) = p"
| "path (invalid_union p unionErrors) = p"

datatype ZodError = ZodError (issues: "zissue list")

text \<open>
  What parsing one value returns: the status \<open>valid\<close> with the value, the status \<open>dirty\<close>
  with the value and the issues raised, or the status \<open>aborted\<close> with the issues raised.
\<close>

datatype ParseReturn = OK jsval | DIRTY jsval "zissue list" | INVALID "zissue list"

fun raised :: "ParseReturn \<Rightarrow> zissue list" where
  "raised (OK v) = []"
| "raised (DIRTY v is) = is"
| "raised (INVALID is) = is"

fun isValid :: "ParseReturn \<Rightarrow> bool" where
  "isValid (OK v) = True"
| "isValid _ = False"

text \<open>A check of a number: its kind, its bound, and whether the bound is inclusive.\<close>

datatype zcheck = min_check jsnum bool | max_check jsnum bool

datatype ztype =
    ZodNumber bool "zcheck list"
  | ZodBoolean bool
  | ZodAny
  | ZodEffects "jsval \<Rightarrow> jsval"
  | ZodUnion ztype ztype

text \<open>
  \<open>ZodNumber coerce checks\<close> and \<open>ZodBoolean coerce\<close> carry the flag that \<open>z.coerce\<close> sets;
  \<open>ZodEffects f\<close> is \<open>z.any().transform(f)\<close>; \<open>ZodUnion a b\<close> is \<open>a.or(b)\<close>.
\<close>

fun check_issues :: "string list \<Rightarrow> jsnum \<Rightarrow> zcheck \<Rightarrow> zissue list" where
  "check_issues p n (min_check bound inclusive) =
     (if (if inclusive then num_lt n bound else num_le n bound) then [too_small p] else [])"
| "check_issues p n (max_check bound inclusive) =
     (if (if inclusive then num_lt bound n else num_le bound n) then [too_big p] else [])"

text \<open>
  Parsing a value against a type, at a path. A number type coerces first when its flag
  is set, rejects what is then not a number or is NaN, and runs its checks, each failed
  check raising an issue and making the result dirty. A union tries its options in
  order and returns the first valid result; failing that the first dirty one; failing
  that it is aborted with one issue that holds the issues of the options.
\<close>

fun ztype_parse :: "(string \<Rightarrow> jsnum) \<Rightarrow> string list \<Rightarrow> ztype \<Rightarrow> jsval \<Rightarrow> ParseReturn" where
  "ztype_parse rest p (ZodNumber coerce checks) data =
     (case (if coerce then JNum (Number rest data) else data) of
        JNum n \<Rightarrow>
          if n = NaN then INVALID [invalid_type p]
          else (let raised_here = concat (map (check_issues p n) checks)
                in if raised_here = [] then OK (JNum n) else DIRTY (JNum n) raised_here)
      | _ \<Rightarrow> INVALID [invalid_type p])"
| "ztype_parse rest p (ZodBoolean coerce) data =
     (case (if coerce then JBool (Boolean data) else data) of
        JBool b \<Rightarrow> OK (JBool b)
      | _ \<Rightarrow> INVALID [invalid_type p])"
| "ztype_parse rest p ZodAny data = OK data"
| "ztype_parse rest p (ZodEffects f) data = OK (f data)"
| "ztype_parse rest p (ZodUnion a b) data =
     (case ztype_parse rest p a data of
        OK v \<Rightarrow> OK v
      | DIRTY v1 is1 \<Rightarrow>
          (case ztype_parse rest p b data of
             OK v \<Rightarrow> OK v
           | _ \<Rightarrow> DIRTY v1 is1)
      | INVALID is1 \<Rightarrow>
          (case ztype_parse rest p b data of
             OK v \<Rightarrow> OK v
           | DIRTY v2 is2 \<Rightarrow> DIRTY v2 is2
           | INVALID is2 \<Rightarrow>
               INVALID [invalid_union p (filter (\<lambda>is. is \<noteq> []) [is1, is2])]))"

subsection \<open>Objects\<close>

type_synonym zshape = "(string \<times> ztype) list"

datatype status = valid | dirty | aborted

text \<open>
  \<open>z.object(shape)\<close> parses, for every key of the shape in order, the property of that name
  of the input (\<open>undefined\<close> when the input has none) at the path of the key, and keeps with
  the result whether the input has the key.
\<close>

definition object_pairs ::
  "(string \<Rightarrow> jsnum) \<Rightarrow> zshape \<Rightarrow> jsobj \<Rightarrow> (string \<times> ParseReturn \<times> bool) list" where
  "object_pairs rest shape data =
     map (\<lambda>(key, t). (key, ztype_parse rest [key] t (obj_get data key), obj_has data key)) shape"

text \<open>
  The results are merged into the object returned: an aborted result aborts the whole,
  a dirty one makes it dirty, and a value is stored under its key unless it is
  \<open>undefined\<close> and the input did not have the key. (The library also skips the key
  \<open>__proto__\<close>, which is no ordinary name.)
\<close>

fun mergeObjectSync ::
  "status \<Rightarrow> jsobj \<Rightarrow> (string \<times> ParseReturn \<times> bool) list \<Rightarrow> status \<times> jsobj" where
  "mergeObjectSync st finalObject [] = (st, finalObject)"
| "mergeObjectSync st finalObject ((key, INVALID is, alwaysSet) # pairs) = (aborted, [])"
| "mergeObjectSync st finalObject ((key, DIRTY v is, alwaysSet) # pairs) =
     mergeObjectSync dirty
       (if v \<noteq> JUndefined \<or> alwaysSet then obj_set finalObject key v else finalObject) pairs"
| "mergeObjectSync st finalObject ((key, OK v, alwaysSet) # pairs) =
     mergeObjectSync st
       (if v \<noteq> JUndefined \<or> alwaysSet then obj_set finalObject key v else finalObject) pairs"

text \<open>
  \<open>schema.parse(data)\<close> returns the object when the status is valid, and otherwise throws
  a \<open>ZodError\<close> with all the issues raised, those of every field.
\<close>

definition parse :: "(string \<Rightarrow> jsnum) \<Rightarrow> zshape \<Rightarrow> jsobj \<Rightarrow> ZodError + jsobj" where
  "parse rest shape data =
     (let pairs = object_pairs rest shape data
      in case mergeObjectSync valid [] pairs of
           (valid, finalObject) \<Rightarrow> Inr finalObject
         | _ \<Rightarrow> Inl (ZodError (concat (map (\<lambda>(key, r, alwaysSet). raised r) pairs))))"

subsection \<open>The schema of the page\<close>

text \<open>
  \<^verbatim>\<open>
  const fallback = <T,>(value: T): z.Schema<T> => {
    return z.any().transform(() => value);
  };
  const searchParamsSchema = z.object({
    count: z.coerce.number().min(0).or(fallback(0)),
  });
  \<close>
\<close>

definition z_coerce_number :: ztype where
  "z_coerce_number = ZodNumber True []"

fun z_min :: "ztype \<Rightarrow> jsnum \<Rightarrow> ztype" where
  "z_min (ZodNumber coerce checks) bound = ZodNumber coerce (checks @ [min_check bound True])"
| "z_min t bound = t"

definition z_or :: "ztype \<Rightarrow> ztype \<Rightarrow> ztype" where
  "z_or a b = ZodUnion a b"

definition fallback :: "jsval \<Rightarrow> ztype" where
  "fallback value = ZodEffects (\<lambda>_. value)"

definition searchParamsSchema :: zshape where
  "searchParamsSchema =
     [(''count'', z_or (z_min z_coerce_number (Fin 0)) (fallback (JNum (Fin 0))))]"

section \<open>safeSearchParams\<close>

text \<open>
  \<^verbatim>\<open>
  const safeSearchParams = useMemo(() => {
    return schema.parse(Object.fromEntries(searchParams));
  }, [schema, searchParams]);
  \<close>
  \<open>useMemo\<close> returns what the function returns (or returned, for the same schema and the
  same query); an error that \<open>parse\<close> throws is not caught.
\<close>

definition safeSearchParams ::
  "(string \<Rightarrow> jsnum) \<Rightarrow> zshape \<Rightarrow> addr \<Rightarrow> heap \<Rightarrow> ZodError + jsobj" where
  "safeSearchParams rest schema searchParams h =
     parse rest schema (Object_fromEntries (objs h searchParams))"

section \<open>The vocabulary of the properties\<close>

text \<open>
  The pairs that \<open>updatedParams\<close> holds when \<open>createSafeURL\<close> returns: it is the object
  allocated at the first free address of the heap the call started from.
\<close>

definition updated_query ::
  "(rat \<Rightarrow> string) \<Rightarrow> string \<Rightarrow> addr \<Rightarrow> (string \<times> jsval) list \<Rightarrow> heap \<Rightarrow> entries" where
  "updated_query tostr pathname searchParams newParams h =
     objs (snd (createSafeURL tostr pathname searchParams newParams h)) (free h)"

text \<open>
  The same pairs, computed on the list alone: the loop of \<open>createSafeURL\<close> applied to the
  pairs of the current query.
\<close>

definition updated_entries :: "(rat \<Rightarrow> string) \<Rightarrow> (string \<times> jsval) list \<Rightarrow> entries \<Rightarrow> entries" where
  "updated_entries tostr newParams es =
     foldl (\<lambda>es' (key, v). set_entries key (ToUSVString (JSON_stringify tostr v)) es') es newParams"

text \<open>
  The partial update as the texts it writes, key by key.
\<close>

definition update_texts :: "(rat \<Rightarrow> string) \<Rightarrow> (string \<times> jsval) list \<Rightarrow> (string \<times> string) list" where
  "update_texts tostr newParams = map (\<lambda>(key, v). (key, ToUSVString (JSON_stringify tostr v))) newParams"

text \<open>
  The current query updated in place, in the words of the specification: a pair whose
  name the update does not name stays as it is and where it is; the first pair of a name
  that the update names takes the new text, at its position; the later pairs of that
  name are dropped. \<open>seen\<close> holds the updated names met so far.
\<close>

fun updated_in_place :: "(string \<rightharpoonup> string) \<Rightarrow> string set \<Rightarrow> entries \<Rightarrow> entries" where
  "updated_in_place upd seen [] = []"
| "updated_in_place upd seen ((n, v) # es) =
     (case upd n of
        None \<Rightarrow> (n, v) # updated_in_place upd seen es
      | Some t \<Rightarrow>
          if n \<in> seen then updated_in_place upd seen es
          else (n, t) # updated_in_place upd (insert n seen) es)"

text \<open>
  The value that \<open>safeSearchParams\<close> gives to the field of a key: the raw string of the
  last pair of that name in the query, or \<open>undefined\<close> when no pair has the name.
\<close>

definition raw_value :: "entries \<Rightarrow> string \<Rightarrow> jsval" where
  "raw_value es key = (case map_of (rev es) key of None \<Rightarrow> JUndefined | Some s \<Rightarrow> JStr s)"

text \<open>
  The values that a type lets through: what a valid result of the type can be. For a
  number type these are the numbers other than NaN that fail none of its checks; for a
  boolean type the booleans; for a union what either option lets through.
\<close>

fun accepts :: "ztype \<Rightarrow> jsval \<Rightarrow> bool" where
  "accepts (ZodNumber coerce checks) v =
     (case v of JNum n \<Rightarrow> n \<noteq> NaN \<and> (\<forall>c \<in> set checks. check_issues [] n c = []) | _ \<Rightarrow> False)"
| "accepts (ZodBoolean coerce) v = (case v of JBool b \<Rightarrow> True | _ \<Rightarrow> False)"
| "accepts ZodAny v = True"
| "accepts (ZodEffects f) v = (\<exists>x. v = f x)"
| "accepts (ZodUnion a b) v = (accepts a v \<or> accepts b v)"

text \<open>
  The types that carry the coercion and the constraints of one field in the schemas of
  the specification; a field is such a type, alone or composed with a fallback value
  as in src/app/page.tsx.
\<close>

fun primitive :: "ztype \<Rightarrow> bool" where
  "primitive (ZodNumber coerce checks) = True"
| "primitive (ZodBoolean coerce) = True"
| "primitive ZodAny = True"
| "primitive _ = False"

text \<open>
  Two results of parsing a field that \<open>mergeObjectSync\<close> treats alike: the same key, the
  same valid value, and the same decision to store it.
\<close>

definition same_merge :: "string \<times> ParseReturn \<times> bool \<Rightarrow> string \<times> ParseReturn \<times> bool \<Rightarrow> bool" where
  "same_merge x x' =
     (fst x = fst x' \<and>
      (\<exists>y. fst (snd x) = OK y \<and> fst (snd x') = OK y \<and>
           ((y \<noteq> JUndefined \<or> snd (snd x)) = (y \<noteq> JUndefined \<or> snd (snd x')))))"

text \<open>
  For the examples: the heap that holds the query of the current URL at address 0 and
  nothing else, and stand-ins for the two conversions of the runtime that the model
  leaves open (no example depends on what they return).
\<close>

definition heap_of :: "entries \<Rightarrow> heap" where
  "heap_of es = \<lparr>objs = (\<lambda>a. if a = 0 then es else []), free = 1\<rparr>"

definition rest_example :: "string \<Rightarrow> jsnum" where
  "rest_example s = NaN"

definition tostr_example :: "rat \<Rightarrow> string" where
  "tostr_example q = []"

section \<open>Lemmas about URLSearchParams and createSafeURL\<close>

text \<open>
  The loop of \<open>createSafeURL\<close> writes to one object only, so the call is a function of the
  pairs of the current query: the heap drops out of the reasoning after
  \<open>createSafeURL_eq\<close>. What \<open>set\<close> does to the pairs of one name, and to the pairs of the other
  names, is proved on \<open>set_first\<close> and lifted to the loop by induction on the update, taken
  from its end.
\<close>

lemma set_loop_heap:
  "foldl (\<lambda>h' (key, v). URLSearchParams_set a key (f v) h') h1 np =
     h1\<lparr>objs := (objs h1)(a := foldl (\<lambda>es' (key, v). set_entries key (f v) es') (objs h1 a) np)\<rparr>"
proof (induction np arbitrary: h1)
  case Nil
  show ?case by simp
next
  case (Cons x np)
  obtain key v where x: "x = (key, v)" by (cases x)
  have "foldl (\<lambda>h' (key, v). URLSearchParams_set a key (f v) h') h1 (x # np) =
        foldl (\<lambda>h' (key, v). URLSearchParams_set a key (f v) h') (URLSearchParams_set a key (f v) h1) np"
    by (simp add: x)
  also have "\<dots> = (URLSearchParams_set a key (f v) h1)\<lparr>objs := (objs (URLSearchParams_set a key (f v) h1))
      (a := foldl (\<lambda>es' (key, v). set_entries key (f v) es') (objs (URLSearchParams_set a key (f v) h1) a) np)\<rparr>"
    by (rule Cons.IH)
  also have "\<dots> = h1\<lparr>objs := (objs h1)(a := foldl (\<lambda>es' (key, v). set_entries key (f v) es') (objs h1 a) (x # np))\<rparr>"
    by (simp add: x URLSearchParams_set_def)
  finally show ?case .
qed

lemma createSafeURL_eq:
  "createSafeURL tostr pathname searchParams newParams h =
     (pathname @ ''?'' @ serialize (updated_entries tostr newParams (objs h searchParams)),
      h\<lparr>objs := (objs h)(free h := updated_entries tostr newParams (objs h searchParams)),
        free := Suc (free h)\<rparr>)"
  by (simp add: createSafeURL_def new_URLSearchParams_def set_loop_heap
      URLSearchParams_toString_def updated_entries_def)

lemma updated_query_eq:
  "updated_query tostr pathname searchParams newParams h =
     updated_entries tostr newParams (objs h searchParams)"
  by (simp add: updated_query_def createSafeURL_eq)

lemma createSafeURL_url:
  "fst (createSafeURL tostr pathname searchParams newParams h) =
     pathname @ ''?'' @ serialize (updated_query tostr pathname searchParams newParams h)"
  by (simp add: updated_query_eq createSafeURL_eq)

lemma updated_entries_snoc:
  "updated_entries tostr (np @ [(key, v)]) es =
     set_entries key (ToUSVString (JSON_stringify tostr v)) (updated_entries tostr np es)"
  by (simp add: updated_entries_def)

lemma updated_entries_Nil: "updated_entries tostr [] es = es"
  by (simp add: updated_entries_def)

lemma updated_entries_Cons:
  "updated_entries tostr ((key, v) # np) es =
     updated_entries tostr np (set_entries key (ToUSVString (JSON_stringify tostr v)) es)"
  by (simp add: updated_entries_def)

lemma filter_set_first_other:
  "name \<noteq> k \<Longrightarrow> filter (\<lambda>(n, v). n = k) (set_first name value es) = filter (\<lambda>(n, v). n = k) es"
  by (induction es) (auto simp: case_prod_unfold intro: filter_cong)

lemma filter_set_first_same:
  "name \<in> fst ` set es \<Longrightarrow> filter (\<lambda>(n, v). n = name) (set_first name value es) = [(name, value)]"
  by (induction es) (force simp: case_prod_unfold filter_empty_conv)+

lemma filter_set_entries_same:
  "filter (\<lambda>(n, v). n = name) (set_entries name value es) = [(name, value)]"
  by (force simp: set_entries_def filter_set_first_same filter_empty_conv)

lemma filter_set_entries_other:
  "name \<noteq> k \<Longrightarrow> filter (\<lambda>(n, v). n = k) (set_entries name value es) = filter (\<lambda>(n, v). n = k) es"
  by (simp add: set_entries_def filter_set_first_other)

lemma entries_of_updated_key:
  "k \<in> fst ` set np \<Longrightarrow> \<exists>t. filter (\<lambda>(n, v). n = k) (updated_entries tostr np es) = [(k, t)]"
proof (induction np rule: rev_induct)
  case Nil
  then show ?case by simp
next
  case (snoc x np)
  obtain key v where x: "x = (key, v)" by (cases x)
  show ?case
  proof (cases "key = k")
    case True
    then show ?thesis by (simp add: x updated_entries_snoc filter_set_entries_same)
  next
    case False
    with snoc.prems x have "k \<in> fst ` set np" by auto
    with snoc.IH False show ?thesis by (simp add: x updated_entries_snoc filter_set_entries_other)
  qed
qed

lemma entries_of_updated_key_value:
  "distinct (map fst np) \<Longrightarrow> (k, v) \<in> set np \<Longrightarrow>
   filter (\<lambda>(n, v'). n = k) (updated_entries tostr np es) = [(k, ToUSVString (JSON_stringify tostr v))]"
proof (induction np rule: rev_induct)
  case Nil
  then show ?case by simp
next
  case (snoc x np)
  obtain key w where x: "x = (key, w)" by (cases x)
  show ?case
  proof (cases "key = k")
    case True
    with snoc.prems x have "w = v" by (auto simp: image_iff)
    with True show ?thesis by (simp add: x updated_entries_snoc filter_set_entries_same)
  next
    case False
    with snoc.prems x have "(k, v) \<in> set np" "distinct (map fst np)" by auto
    with snoc.IH False show ?thesis by (simp add: x updated_entries_snoc filter_set_entries_other)
  qed
qed

lemma set_entries_not_Nil: "set_entries name value es \<noteq> []"
  by (cases es) (auto simp: set_entries_def split: if_splits)

lemma updated_entries_Nil_iff: "updated_entries tostr np es = [] \<longleftrightarrow> es = [] \<and> np = []"
proof (induction np rule: rev_induct)
  case Nil
  show ?case by (simp add: updated_entries_Nil)
next
  case (snoc x np)
  obtain key w where x: "x = (key, w)" by (cases x)
  show ?case by (simp add: x updated_entries_snoc set_entries_not_Nil)
qed

lemma filter_set_first_frame:
  "name \<in> K \<Longrightarrow> filter (\<lambda>(n, v). n \<notin> K) (set_first name value es) = filter (\<lambda>(n, v). n \<notin> K) es"
  by (induction es) (auto simp: case_prod_unfold intro: filter_cong)

lemma filter_set_entries_frame:
  "name \<in> K \<Longrightarrow> filter (\<lambda>(n, v). n \<notin> K) (set_entries name value es) = filter (\<lambda>(n, v). n \<notin> K) es"
  by (simp add: set_entries_def filter_set_first_frame)

lemma updated_entries_frame:
  "fst ` set np \<subseteq> K \<Longrightarrow>
   filter (\<lambda>(n, v). n \<notin> K) (updated_entries tostr np es) = filter (\<lambda>(n, v). n \<notin> K) es"
proof (induction np rule: rev_induct)
  case Nil
  show ?case by (simp add: updated_entries_Nil)
next
  case (snoc x np)
  obtain key w where x: "x = (key, w)" by (cases x)
  with snoc.prems have "key \<in> K" "fst ` set np \<subseteq> K" by auto
  with snoc.IH show ?case by (simp add: x updated_entries_snoc filter_set_entries_frame)
qed

lemma in_place_snoc:
  "upd k = None \<Longrightarrow> updated_in_place upd seen (es @ [(k, t)]) = updated_in_place upd seen es @ [(k, t)]"
  by (induction es arbitrary: seen) (auto split: option.splits)

lemma in_place_absent:
  "k \<notin> fst ` set es \<Longrightarrow> updated_in_place (upd(k \<mapsto> t)) seen es = updated_in_place upd seen es"
  by (induction es arbitrary: seen) (auto split: option.splits)

lemma in_place_filter:
  "upd k = None \<Longrightarrow>
   updated_in_place upd seen (filter (\<lambda>(n', v'). n' \<noteq> k) es) =
   updated_in_place (upd(k \<mapsto> t)) (insert k seen) es"
proof (induction es arbitrary: seen)
  case Nil
  show ?case by simp
next
  case (Cons e es)
  obtain n v where e: "e = (n, v)" by (cases e)
  show ?case
  proof (cases "n = k")
    case True
    with Cons show ?thesis by (simp add: e)
  next
    case False
    have "insert n (insert k seen) = insert k (insert n seen)" by auto
    with False Cons show ?thesis by (auto simp: e split: option.splits)
  qed
qed

lemma in_place_set_first:
  "upd k = None \<Longrightarrow> k \<notin> seen \<Longrightarrow>
   updated_in_place upd seen (set_first k t es) = updated_in_place (upd(k \<mapsto> t)) seen es"
proof (induction es arbitrary: seen)
  case Nil
  show ?case by simp
next
  case (Cons e es)
  obtain n v where e: "e = (n, v)" by (cases e)
  show ?case
  proof (cases "n = k")
    case True
    with Cons.prems in_place_filter [of upd k seen es t] show ?thesis by (simp add: e fun_upd_def)
  next
    case False
    with Cons show ?thesis by (auto simp: e split: option.splits)
  qed
qed

lemma fst_set_filter_other: "fst ` set (filter (\<lambda>(n', v'). n' \<noteq> k) es) = fst ` set es - {k}"
  by (induction es) auto

lemma fst_set_set_first: "fst ` set (set_first k t es) = fst ` set es"
proof (induction es)
  case Nil
  show ?case by simp
next
  case (Cons e es)
  obtain n v where e: "e = (n, v)" by (cases e)
  show ?case
  proof (cases "n = k")
    case True
    have "fst ` set (set_first k t (e # es)) = insert k (fst ` set (filter (\<lambda>(n', v'). n' \<noteq> k) es))"
      by (simp add: e True del: set_filter)
    also have "\<dots> = insert k (fst ` set es)"
      by (simp only: fst_set_filter_other) auto
    finally show ?thesis by (simp add: e True)
  next
    case False
    with Cons show ?thesis by (simp add: e)
  qed
qed

lemma fst_set_set_entries: "fst ` set (set_entries k t es) = insert k (fst ` set es)"
  by (auto simp: set_entries_def fst_set_set_first)

lemma updated_entries_in_place:
  "distinct (map fst np) \<Longrightarrow>
   updated_entries tostr np es =
     updated_in_place (map_of (update_texts tostr np)) {} es @
     filter (\<lambda>(key, t). key \<notin> fst ` set es) (update_texts tostr np)"
proof (induction np arbitrary: es)
  case Nil
  have "updated_in_place Map.empty {} es = es" for es :: entries
    by (induction es) auto
  then show ?case by (simp add: updated_entries_Nil update_texts_def)
next
  case (Cons x np)
  obtain k v where x: "x = (k, v)" by (cases x)
  define t where "t = ToUSVString (JSON_stringify tostr v)"
  define M where "M = map_of (update_texts tostr np)"
  from Cons.prems x have k: "k \<notin> fst ` set np" and d: "distinct (map fst np)" by auto
  have keys: "fst ` set (update_texts tostr np) = fst ` set np"
    by (force simp: update_texts_def image_iff)
  from k keys have Mk: "M k = None"
    by (simp add: M_def map_of_eq_None_iff)
  have step: "updated_entries tostr (x # np) es = updated_entries tostr np (set_entries k t es)"
    by (simp add: x t_def updated_entries_Cons)
  have texts: "update_texts tostr (x # np) = (k, t) # update_texts tostr np"
    by (simp add: update_texts_def x t_def)
  have IH: "updated_entries tostr np (set_entries k t es) =
      updated_in_place M {} (set_entries k t es) @
      filter (\<lambda>(key, t'). key \<notin> fst ` set (set_entries k t es)) (update_texts tostr np)"
    unfolding M_def by (rule Cons.IH [OF d])
  from k keys have k': "k \<notin> fst ` set (update_texts tostr np)" by simp
  have rest: "filter (\<lambda>(key, t'). key \<notin> insert k (fst ` set es)) (update_texts tostr np) =
      filter (\<lambda>(key, t'). key \<notin> fst ` set es) (update_texts tostr np)"
    using k' by (intro filter_cong refl) force
  have map: "map_of (update_texts tostr (x # np)) = M(k \<mapsto> t)"
    by (simp add: texts M_def)
  show ?case
  proof (cases "k \<in> fst ` set es")
    case True
    then have "updated_in_place M {} (set_entries k t es) = updated_in_place (M(k \<mapsto> t)) {} es"
      by (simp add: set_entries_def in_place_set_first Mk)
    moreover have "filter (\<lambda>(key, t'). key \<notin> fst ` set es) (update_texts tostr (x # np)) =
        filter (\<lambda>(key, t'). key \<notin> fst ` set es) (update_texts tostr np)"
      using True by (simp add: texts)
    ultimately show ?thesis
      by (simp only: step IH map fst_set_set_entries rest)
  next
    case False
    then have "updated_in_place M {} (set_entries k t es) = updated_in_place (M(k \<mapsto> t)) {} es @ [(k, t)]"
      by (simp add: set_entries_def in_place_snoc Mk in_place_absent)
    moreover have "filter (\<lambda>(key, t'). key \<notin> fst ` set es) (update_texts tostr (x # np)) =
        (k, t) # filter (\<lambda>(key, t'). key \<notin> fst ` set es) (update_texts tostr np)"
      using False by (simp add: texts)
    ultimately show ?thesis
      by (simp only: step IH map fst_set_set_entries rest append_assoc append_Cons append_Nil)
  qed
qed

section \<open>Lemmas about objects and schemas\<close>

text \<open>
  \<open>Object.fromEntries\<close> is read through \<open>map_of\<close>: the property of a key is the value of the
  last pair of that name. For a schema with distinct keys, \<open>parse\<close> succeeds exactly when
  every field is valid, and the object returned then holds under each key what the type
  of the field returned (\<open>merge_valid\<close>, \<open>parse_Inr\<close>); a field that is not valid raises
  an issue at its own path (\<open>ztype_raised\<close>, \<open>parse_fails\<close>).
\<close>

lemma map_of_obj_set: "map_of (obj_set obj key v) = (map_of obj)(key \<mapsto> v)"
  by (induction obj) (auto simp: fun_eq_iff)

lemma fst_set_obj_set: "fst ` set (obj_set obj key v) = insert key (fst ` set obj)"
  by (simp add: dom_map_of_conv_image_fst [symmetric] map_of_obj_set)

lemma map_of_fromEntries_aux:
  "map_of (foldl (\<lambda>obj (name, value). obj_set obj name (JStr value)) obj0 es) k =
     (case map_of (rev es) k of Some v \<Rightarrow> Some (JStr v) | None \<Rightarrow> map_of obj0 k)"
proof (induction es arbitrary: obj0)
  case Nil
  show ?case by simp
next
  case (Cons e es)
  obtain n v where e: "e = (n, v)" by (cases e)
  show ?case
    by (auto simp: e Cons.IH map_of_obj_set map_add_def split: option.splits)
qed

lemma map_of_fromEntries:
  "map_of (Object_fromEntries es) k = map_option JStr (map_of (rev es) k)"
  by (simp add: Object_fromEntries_def map_of_fromEntries_aux split: option.splits)

lemma map_of_rev_last:
  "k \<notin> fst ` set es2 \<Longrightarrow> map_of (rev (es1 @ (k, v) # es2)) k = Some v"
proof -
  assume "k \<notin> fst ` set es2"
  then have "map_of (rev es2) k = None" by (simp add: map_of_eq_None_iff)
  then show ?thesis by (simp add: map_add_def)
qed

lemma fromEntries_last:
  "k \<notin> fst ` set es2 \<Longrightarrow> obj_get (Object_fromEntries (es1 @ (k, v) # es2)) k = JStr v"
  by (simp add: obj_get_def map_of_fromEntries map_of_rev_last del: rev_append)

lemma obj_get_fromEntries: "obj_get (Object_fromEntries es) key = raw_value es key"
  by (simp add: obj_get_def raw_value_def map_of_fromEntries split: option.splits)

lemma raw_value_absent: "key \<notin> fst ` set es \<Longrightarrow> raw_value es key = JUndefined"
  by (simp add: raw_value_def map_of_eq_None_iff [THEN iffD2])

lemma merge_valid:
  "mergeObjectSync st obj0 pairs = (valid, obj) \<Longrightarrow>
   distinct (map fst pairs) \<Longrightarrow> fst ` set pairs \<inter> fst ` set obj0 = {} \<Longrightarrow>
   st = valid \<and>
   (\<forall>(k, r, b) \<in> set pairs. \<exists>y. r = OK y \<and> obj_get obj k = y \<and> (obj_has obj k \<longleftrightarrow> y \<noteq> JUndefined \<or> b)) \<and>
   (\<forall>k. k \<notin> fst ` set pairs \<longrightarrow> map_of obj k = map_of obj0 k)"
proof (induction st obj0 pairs rule: mergeObjectSync.induct)
  case (1 st finalObject)
  then show ?case by simp
next
  case (2 st finalObject key "is" alwaysSet pairs)
  then show ?case by simp
next
  case (3 st finalObject key v "is" alwaysSet pairs)
  let ?obj1 = "if v \<noteq> JUndefined \<or> alwaysSet then obj_set finalObject key v else finalObject"
  from 3 have m: "mergeObjectSync dirty ?obj1 pairs = (valid, obj)" by simp
  from "3.prems" have "distinct (map fst pairs)" "fst ` set pairs \<inter> fst ` set ?obj1 = {}"
    by (auto simp: fst_set_obj_set)
  from "3.IH" [OF m this] show ?case by simp
next
  case (4 st finalObject key v alwaysSet pairs)
  let ?obj1 = "if v \<noteq> JUndefined \<or> alwaysSet then obj_set finalObject key v else finalObject"
  from 4 have m: "mergeObjectSync st ?obj1 pairs = (valid, obj)" by simp
  from "4.prems" have d: "distinct (map fst pairs)" "fst ` set pairs \<inter> fst ` set ?obj1 = {}"
    and key: "key \<notin> fst ` set pairs" "key \<notin> fst ` set finalObject"
    by (auto simp: fst_set_obj_set)
  note IH = "4.IH" [OF m d]
  from IH key have k1: "map_of obj key = map_of ?obj1 key" by blast
  from key(2) have none: "map_of finalObject key = None" by (simp add: map_of_eq_None_iff)
  have has: "obj_has o' k = (map_of o' k \<noteq> None)" for o' k
    by (simp add: obj_has_def map_of_eq_None_iff)
  have here: "obj_get obj key = v \<and> (obj_has obj key \<longleftrightarrow> v \<noteq> JUndefined \<or> alwaysSet)"
    using k1 none by (auto simp: obj_get_def has map_of_obj_set)
  have other: "map_of obj k = map_of finalObject k" if "k \<notin> fst ` set pairs" "k \<noteq> key" for k
    using IH that by (auto simp: map_of_obj_set)
  from IH here other show ?case by auto
qed

lemma merge_status_stays:
  "st \<noteq> valid \<Longrightarrow> fst (mergeObjectSync st obj pairs) \<noteq> valid"
  by (induction st obj pairs rule: mergeObjectSync.induct) auto

lemma merge_not_valid:
  "(k, r, b) \<in> set pairs \<Longrightarrow> \<not> isValid r \<Longrightarrow> fst (mergeObjectSync st obj pairs) \<noteq> valid"
proof (induction st obj pairs rule: mergeObjectSync.induct)
  case (1 st finalObject)
  then show ?case by simp
next
  case (2 st finalObject key "is" alwaysSet pairs)
  show ?case by simp
next
  case (3 st finalObject key v "is" alwaysSet pairs)
  show ?case by (simp add: merge_status_stays)
next
  case (4 st finalObject key v alwaysSet pairs)
  then show ?case by auto
qed


lemma merge_cong:
  "list_all2 same_merge ps ps' \<Longrightarrow> mergeObjectSync st obj ps = mergeObjectSync st obj ps'"
proof (induction ps ps' arbitrary: obj rule: list_all2_induct)
  case Nil
  show ?case by simp
next
  case (Cons x xs x' xs')
  obtain k r b where x: "x = (k, r, b)" by (cases x)
  obtain k' r' b' where x': "x' = (k', r', b')" by (cases x')
  from Cons(1) obtain y where "k' = k" "r = OK y" "r' = OK y"
    "(y \<noteq> JUndefined \<or> b) = (y \<noteq> JUndefined \<or> b')"
    by (auto simp: same_merge_def x x')
  with Cons.IH show ?case by (simp add: x x')
qed

lemma check_issues_path: "(check_issues p n c = []) = (check_issues p' n c = [])"
  by (cases c) auto

lemma check_issues_paths: "i \<in> set (check_issues p n c) \<Longrightarrow> path i = p"
  by (cases c) (auto split: if_splits)

lemma checks_path:
  "(concat (map (check_issues p n) checks) = []) = (concat (map (check_issues p' n) checks) = [])"
  by (simp add: check_issues_path [of p n _ p'])

lemma ztype_raised:
  "\<not> isValid (ztype_parse rest p t d) \<Longrightarrow>
   raised (ztype_parse rest p t d) \<noteq> [] \<and> (\<forall>i \<in> set (raised (ztype_parse rest p t d)). path i = p)"
proof (induction t)
  case (ZodNumber coerce checks)
  then show ?case
    by (auto simp: Let_def dest: check_issues_paths split: jsval.splits if_splits)
next
  case (ZodBoolean coerce)
  then show ?case by (auto split: jsval.splits if_splits)
next
  case ZodAny
  then show ?case by simp
next
  case (ZodEffects f)
  then show ?case by simp
next
  case (ZodUnion a b)
  then show ?case
    by (cases "ztype_parse rest p a d"; cases "ztype_parse rest p b d") auto
qed

lemma number_rejects_undefined: "\<not> isValid (ztype_parse rest p (ZodNumber coerce checks) JUndefined)"
  by simp

lemma parse_Inr:
  assumes "parse rest shape data = Inr state" and "distinct (map fst shape)" and "(k, t) \<in> set shape"
  shows "\<exists>y. ztype_parse rest [k] t (obj_get data k) = OK y \<and> obj_get state k = y \<and>
             (obj_has state k \<longleftrightarrow> y \<noteq> JUndefined \<or> obj_has data k)"
proof -
  let ?pairs = "object_pairs rest shape data"
  from assms(1) have m: "mergeObjectSync valid [] ?pairs = (valid, state)"
    by (auto simp: parse_def Let_def split: prod.splits status.splits)
  have keys: "map fst ?pairs = map fst shape"
    by (simp add: object_pairs_def case_prod_unfold)
  with assms(2) have d: "distinct (map fst ?pairs)" by simp
  have mem: "(k, ztype_parse rest [k] t (obj_get data k), obj_has data k) \<in> set ?pairs"
    using assms(3) by (force simp: object_pairs_def)
  from merge_valid [OF m d] mem show ?thesis by fastforce
qed


lemma parse_fails:
  assumes "(k, t) \<in> set shape" and "\<not> isValid (ztype_parse rest [k] t (obj_get data k))"
  shows "\<exists>is. parse rest shape data = Inl (ZodError is) \<and> (\<exists>i \<in> set is. path i = [k])"
proof -
  let ?pairs = "object_pairs rest shape data"
  let ?r = "ztype_parse rest [k] t (obj_get data k)"
  have mem: "(k, ?r, obj_has data k) \<in> set ?pairs"
    using assms(1) by (force simp: object_pairs_def)
  from mem assms(2) have "fst (mergeObjectSync valid [] ?pairs) \<noteq> valid" by (rule merge_not_valid)
  then have p: "parse rest shape data = Inl (ZodError (concat (map (\<lambda>(key, r, alwaysSet). raised r) ?pairs)))"
    by (cases "mergeObjectSync valid [] ?pairs") (auto simp: parse_def Let_def split: status.splits)
  from ztype_raised [OF assms(2)] obtain i where i: "i \<in> set (raised ?r)" "path i = [k]"
    by (cases "raised ?r") auto
  from mem i(1) have "i \<in> set (concat (map (\<lambda>(key, r, alwaysSet). raised r) ?pairs))"
    by force
  with p i(2) show ?thesis by blast
qed

lemma parse_fixpoint:
  assumes p: "parse rest shape data = Inr state" and d: "distinct (map fst shape)"
    and st: "\<And>k t y. (k, t) \<in> set shape \<Longrightarrow> ztype_parse rest [k] t (obj_get data k) = OK y \<Longrightarrow>
               ztype_parse rest [k] t y = OK y"
  shows "parse rest shape state = Inr state"
proof -
  let ?pairs = "object_pairs rest shape data"
  let ?pairs' = "object_pairs rest shape state"
  from p have m: "mergeObjectSync valid [] ?pairs = (valid, state)"
    by (auto simp: parse_def Let_def split: prod.splits status.splits)
  have "list_all2 same_merge ?pairs' ?pairs"
    unfolding object_pairs_def list_all2_map1 list_all2_map2 list_all2_same
  proof (intro ballI)
    fix x assume x: "x \<in> set shape"
    obtain k t where kt: "x = (k, t)" by (cases x)
    from parse_Inr [OF p d x [unfolded kt]] obtain y
      where y: "ztype_parse rest [k] t (obj_get data k) = OK y"
      "obj_get state k = y" "obj_has state k \<longleftrightarrow> y \<noteq> JUndefined \<or> obj_has data k" by blast
    from st [OF x [unfolded kt] y(1)] y
    show "same_merge (case x of (key, t) \<Rightarrow> (key, ztype_parse rest [key] t (obj_get state key), obj_has state key))
                     (case x of (key, t) \<Rightarrow> (key, ztype_parse rest [key] t (obj_get data key), obj_has data key))"
      by (auto simp: kt same_merge_def)
  qed
  then have "mergeObjectSync valid [] ?pairs' = mergeObjectSync valid [] ?pairs" by (rule merge_cong)
  with m show ?thesis by (simp add: parse_def)
qed

lemma union_fallback:
  "ztype_parse rest p (z_or a (fallback v)) x =
     OK (case ztype_parse rest p a x of OK y \<Rightarrow> y | DIRTY y is \<Rightarrow> v | INVALID is \<Rightarrow> v)"
  by (simp add: z_or_def fallback_def split: ParseReturn.splits)

lemma parse_accepts: "ztype_parse rest p t x = OK y \<Longrightarrow> accepts t y"
proof (induction t)
  case (ZodNumber coerce checks)
  then obtain n where y: "y = JNum n" and n: "n \<noteq> NaN"
    and c: "concat (map (check_issues p n) checks) = []"
    by (auto simp: Let_def split: jsval.splits if_splits)
  from c checks_path [of p n checks "[]"] have "concat (map (check_issues [] n) checks) = []"
    by blast
  with n show ?case by (simp add: y)
next
  case (ZodBoolean coerce)
  then show ?case by (auto split: jsval.splits if_splits)
next
  case ZodAny
  show ?case by simp
next
  case (ZodEffects f)
  then show ?case by auto
next
  case (ZodUnion a b)
  then show ?case
    by (cases "ztype_parse rest p a x"; cases "ztype_parse rest p b x") auto
qed

lemma accepts_reparse: "primitive a \<Longrightarrow> accepts a y \<Longrightarrow> ztype_parse rest p a y = OK y"
proof (cases a)
  case (ZodNumber coerce checks)
  assume "accepts a y"
  then obtain n where y: "y = JNum n" and n: "n \<noteq> NaN"
    and c: "concat (map (check_issues [] n) checks) = []"
    by (auto simp: ZodNumber split: jsval.splits)
  from c checks_path [of "[]" n checks p] have "concat (map (check_issues p n) checks) = []"
    by blast
  with n show ?thesis by (simp add: ZodNumber y)
next
  case (ZodBoolean coerce)
  assume "accepts a y"
  then show ?thesis by (auto simp: ZodBoolean split: jsval.splits)
next
  case ZodAny
  then show ?thesis by simp
next
  case (ZodEffects f)
  assume "primitive a"
  with ZodEffects show ?thesis by simp
next
  case (ZodUnion b c)
  assume "primitive a"
  with ZodUnion show ?thesis by simp
qed

lemma fallback_accepts:
  assumes "ztype_parse rest p (z_or a (fallback v)) x = OK y" and "accepts a v"
  shows "accepts a y"
proof (cases "ztype_parse rest p a x")
  case (OK z)
  with assms(1) have "z = y" by (simp add: union_fallback)
  with OK show ?thesis by (auto dest: parse_accepts)
next
  case (DIRTY z "is")
  with assms show ?thesis by (simp add: union_fallback)
next
  case (INVALID "is")
  with assms show ?thesis by (simp add: union_fallback)
qed

section \<open>Evaluating the examples\<close>

text \<open>
  The equations that the simplifier needs to run the model on a concrete query, and the
  examples of the specification and of the README.
\<close>

lemmas url_eval = serialize_def urlencode_def urlencode_byte_def urlencoded_keep_def hex_digit_def

lemmas json_eval = ToUSVString_def NumberToString_def decimal_digits.simps digit_char_def
  QuoteJSONString_def QuoteJSONChar_def hex_digit_def

lemmas number_eval = StringToNumber_def signed_decimal_def is_digit_def digit_value_def

lemmas schema_eval = searchParamsSchema_def z_or_def z_coerce_number_def fallback_def

lemmas parse_eval = safeSearchParams_def parse_def object_pairs_def Object_fromEntries_def
  obj_get_def obj_has_def heap_of_def num_le_def




lemma count_twice: "safeSearchParams rest searchParamsSchema 0 (heap_of [(''count'', ''5''), (''count'', ''7'')]) = Inr [(''count'', JNum (Fin 7))]"
  by (simp add: parse_eval schema_eval number_eval)

lemma count_required: "safeSearchParams rest [(''count'', z_coerce_number)] 0 (heap_of []) = Inl (ZodError [invalid_type [''count'']])"
  by (simp add: parse_eval schema_eval number_eval)

section \<open>Properties of the hook\<close>

subsection \<open>C1: accept or fall back\<close>




subsection \<open>C2: the validated state satisfies its schema\<close>

text \<open>
  C2. Whenever \<open>safeSearchParams\<close> succeeds, the value of every field of the validated
  state is one that the type of the field lets through. For a field declared as
  \<open>a.or(fallback(v))\<close> whose fallback \<open>v\<close> is itself let through by \<open>a\<close>, the value is let through
  by \<open>a\<close>: it satisfies the constraints of \<open>a\<close>, whether it came from the query or from the
  fallback. When every field is a primitive type, alone or with such a fallback, the
  state passes its own schema: parsing it again succeeds and returns it unchanged.
\<close>

theorem safeSearchParams_state_satisfies:
  assumes "distinct (map fst schema)"
    and "safeSearchParams rest schema searchParams h = Inr state"
  shows "(\<forall>(key, t) \<in> set schema. accepts t (obj_get state key))
       \<and> (\<forall>key a v. (key, z_or a (fallback v)) \<in> set schema \<and> accepts a v \<longrightarrow>
            accepts a (obj_get state key))
       \<and> ((\<forall>(key, t) \<in> set schema.
              \<exists>a. primitive a \<and> (t = a \<or> (\<exists>v. t = z_or a (fallback v) \<and> accepts a v))) \<longrightarrow>
            parse rest schema state = Inr state)"
proof -
  let ?data = "Object_fromEntries (objs h searchParams)"
  from assms(2) have p: "parse rest schema ?data = Inr state"
    by (simp add: safeSearchParams_def)
  have field: "ztype_parse rest [key] t (obj_get ?data key) = OK (obj_get state key)"
    if "(key, t) \<in> set schema" for key t
    using parse_Inr [OF p assms(1) that] by blast
  have c1: "\<forall>(key, t) \<in> set schema. accepts t (obj_get state key)"
    using field by (auto dest: parse_accepts)
  have c2: "\<forall>key a v. (key, z_or a (fallback v)) \<in> set schema \<and> accepts a v \<longrightarrow>
            accepts a (obj_get state key)"
    using field by (auto dest: fallback_accepts)
  have c3: "parse rest schema state = Inr state"
    if shape: "\<forall>(key, t) \<in> set schema.
              \<exists>a. primitive a \<and> (t = a \<or> (\<exists>v. t = z_or a (fallback v) \<and> accepts a v))"
    using p assms(1)
  proof (rule parse_fixpoint)
    fix k t y
    assume kt: "(k, t) \<in> set schema" and ok: "ztype_parse rest [k] t (obj_get ?data k) = OK y"
    from shape kt obtain a where a: "primitive a"
      and t: "t = a \<or> (\<exists>v. t = z_or a (fallback v) \<and> accepts a v)" by blast
    from t show "ztype_parse rest [k] t y = OK y"
    proof
      assume "t = a"
      with ok a show ?thesis by (auto intro: accepts_reparse dest: parse_accepts)
    next
      assume "\<exists>v. t = z_or a (fallback v) \<and> accepts a v"
      then obtain v where tv: "t = z_or a (fallback v)" and v: "accepts a v" by blast
      from ok [unfolded tv] v have "accepts a y" by (rule fallback_accepts)
      with a have "ztype_parse rest [k] a y = OK y" by (rule accepts_reparse)
      then show ?thesis by (simp add: tv union_fallback)
    qed
  qed
  from c1 c2 c3 show ?thesis by (intro conjI impI)
qed

text \<open>
  The theorem at the schema of the page and the query \<open>count=-3\<close>.
\<close>

theorem safeSearchParams_state_satisfies_witness:
  "distinct (map fst searchParamsSchema)
   \<and> safeSearchParams rest_example searchParamsSchema 0 (heap_of [(''count'', ''-3'')]) = Inr [(''count'', JNum (Fin 0))]
   \<and> accepts (ZodNumber True [min_check (Fin 0) True]) (JNum (Fin 0))
   \<and> accepts (ZodNumber True [min_check (Fin 0) True]) (obj_get [(''count'', JNum (Fin 0))] ''count'')
   \<and> parse rest_example searchParamsSchema [(''count'', JNum (Fin 0))] = Inr [(''count'', JNum (Fin 0))]"
proof -
  have d: "distinct (map fst searchParamsSchema)"
    by (simp add: searchParamsSchema_def)
  have e: "safeSearchParams rest_example searchParamsSchema 0 (heap_of [(''count'', ''-3'')]) = Inr [(''count'', JNum (Fin 0))]"
    by (simp add: parse_eval schema_eval number_eval)
  have v: "accepts (ZodNumber True [min_check (Fin 0) True]) (JNum (Fin 0))"
    by simp
  have m: "(''count'', z_or (ZodNumber True [min_check (Fin 0) True]) (fallback (JNum (Fin 0)))) \<in> set searchParamsSchema"
    by (simp add: searchParamsSchema_def z_coerce_number_def)
  have s: "\<forall>(key, t) \<in> set searchParamsSchema.
      \<exists>a. primitive a \<and> (t = a \<or> (\<exists>v. t = z_or a (fallback v) \<and> accepts a v))"
  proof -
    let ?a = "ZodNumber True [min_check (Fin 0) True]"
    let ?t = "z_or ?a (fallback (JNum (Fin 0)))"
    from v have "primitive ?a \<and> (?t = ?a \<or> (\<exists>w. ?t = z_or ?a (fallback w) \<and> accepts ?a w))"
      by (intro conjI disjI2 exI [where x = "JNum (Fin 0)"]) (simp_all del: accepts.simps)
    then have "\<exists>a. primitive a \<and> (?t = a \<or> (\<exists>w. ?t = z_or a (fallback w) \<and> accepts a w))"
      by (rule exI [where x = ?a])
    then show ?thesis
      by (simp add: searchParamsSchema_def z_coerce_number_def del: accepts.simps)
  qed
  note t = safeSearchParams_state_satisfies [OF d e]
  from t [THEN conjunct2, THEN conjunct1, rule_format, OF conjI, OF m v]
  have a: "accepts (ZodNumber True [min_check (Fin 0) True]) (obj_get [(''count'', JNum (Fin 0))] ''count'')" .
  from t [THEN conjunct2, THEN conjunct2, THEN mp, OF s]
  have r: "parse rest_example searchParamsSchema [(''count'', JNum (Fin 0))] = Inr [(''count'', JNum (Fin 0))]" .
  from d e v a r show ?thesis by (intro conjI)
qed

subsection \<open>C3: createSafeURL preserves the other parameters\<close>

text \<open>
  C3. \<open>createSafeURL\<close> returns the path, \<open>?\<close> and the serialisation of the updated pairs.
  The pairs whose name the partial update does not name are those of the current query,
  unchanged and in their order. The updated pairs are the current query updated in
  place, followed by the keys of the update that the query did not have, in the order
  of the update. The current query \<open>hello=world\<close> with the update \<open>{count: 1}\<close> gives
  \<open>hello=world&count=1\<close>.
\<close>

theorem createSafeURL_preserves_unrelated:
  assumes "distinct (map fst newParams)"
  shows "fst (createSafeURL tostr pathname searchParams newParams h) =
           pathname @ ''?'' @ serialize (updated_query tostr pathname searchParams newParams h)
       \<and> filter (\<lambda>(n, v). n \<notin> fst ` set newParams) (updated_query tostr pathname searchParams newParams h) =
           filter (\<lambda>(n, v). n \<notin> fst ` set newParams) (objs h searchParams)
       \<and> updated_query tostr pathname searchParams newParams h =
           updated_in_place (map_of (update_texts tostr newParams)) {} (objs h searchParams) @
           filter (\<lambda>(key, t). key \<notin> fst ` set (objs h searchParams)) (update_texts tostr newParams)
       \<and> fst (createSafeURL tostr ''/about'' 0 [(''count'', JNum (Fin 1))] (heap_of [(''hello'', ''world'')])) =
           ''/about?hello=world&count=1''"
proof -
  have ex: "fst (createSafeURL tostr ''/about'' 0 [(''count'', JNum (Fin 1))] (heap_of [(''hello'', ''world'')])) =
           ''/about?hello=world&count=1''"
    by (simp add: createSafeURL_eq updated_entries_def heap_of_def set_entries_def url_eval json_eval)
  have frame: "filter (\<lambda>(n, v). n \<notin> fst ` set newParams) (updated_query tostr pathname searchParams newParams h) =
           filter (\<lambda>(n, v). n \<notin> fst ` set newParams) (objs h searchParams)"
    by (simp only: updated_query_eq updated_entries_frame [OF subset_refl])
  have place: "updated_query tostr pathname searchParams newParams h =
           updated_in_place (map_of (update_texts tostr newParams)) {} (objs h searchParams) @
           filter (\<lambda>(key, t). key \<notin> fst ` set (objs h searchParams)) (update_texts tostr newParams)"
    using assms by (simp only: updated_query_eq updated_entries_in_place)
  from createSafeURL_url frame place ex show ?thesis by blast
qed

text \<open>
  The theorem at the query \<open>hello=world&count=0&count=7\<close> and the update \<open>{count: 1}\<close>.
\<close>

theorem createSafeURL_preserves_unrelated_witness:
  "distinct (map fst [(''count'', JNum (Fin 1))])
   \<and> updated_query tostr_example ''/about'' 0 [(''count'', JNum (Fin 1))] (heap_of [(''hello'', ''world''), (''count'', ''0''), (''count'', ''7'')]) =
       [(''hello'', ''world''), (''count'', ''1'')]"
  using createSafeURL_preserves_unrelated [where newParams = "[(''count'', JNum (Fin 1))]"
      and tostr = tostr_example and pathname = "''/about''" and searchParams = 0
      and h = "heap_of [(''hello'', ''world''), (''count'', ''0''), (''count'', ''7'')]"]
  by (simp add: heap_of_def update_texts_def json_eval)

subsection \<open>C4: an updated key occurs once\<close>

text \<open>
  C4. For every key of the partial update, the pairs that \<open>createSafeURL\<close> serialises
  have exactly one pair of that name, whatever the current query held. The current
  query \<open>count=1\<close> with the update \<open>{count: 2}\<close> gives \<open>count=2\<close>.
\<close>

theorem createSafeURL_key_once:
  assumes "key \<in> fst ` set newParams"
  shows "fst (createSafeURL tostr pathname searchParams newParams h) =
           pathname @ ''?'' @ serialize (updated_query tostr pathname searchParams newParams h)
       \<and> length (filter (\<lambda>(n, v). n = key) (updated_query tostr pathname searchParams newParams h)) = 1
       \<and> fst (createSafeURL tostr ''/about'' 0 [(''count'', JNum (Fin 2))] (heap_of [(''count'', ''1'')])) =
           ''/about?count=2''"
proof -
  have ex: "fst (createSafeURL tostr ''/about'' 0 [(''count'', JNum (Fin 2))] (heap_of [(''count'', ''1'')])) =
           ''/about?count=2''"
    by (simp add: createSafeURL_eq updated_entries_def heap_of_def set_entries_def url_eval json_eval)
  from entries_of_updated_key [OF assms] obtain t
    where "filter (\<lambda>(n, v). n = key) (updated_entries tostr newParams (objs h searchParams)) = [(key, t)]"
    by blast
  then have "length (filter (\<lambda>(n, v). n = key) (updated_query tostr pathname searchParams newParams h)) = 1"
    by (simp add: updated_query_eq)
  with ex show ?thesis by (simp add: createSafeURL_url)
qed

text \<open>
  The theorem at the query \<open>count=1&count=3\<close> and the update \<open>{count: 2}\<close>.
\<close>

theorem createSafeURL_key_once_witness:
  "''count'' \<in> fst ` set [(''count'', JNum (Fin 2))]
   \<and> length (filter (\<lambda>(n, v). n = ''count'')
        (updated_query tostr_example ''/about'' 0 [(''count'', JNum (Fin 2))] (heap_of [(''count'', ''1''), (''count'', ''3'')]))) = 1"
  using createSafeURL_key_once [where key = "''count''" and newParams = "[(''count'', JNum (Fin 2))]"
      and tostr = tostr_example and pathname = "''/about''" and searchParams = 0
      and h = "heap_of [(''count'', ''1''), (''count'', ''3'')]"]
  by simp

subsection \<open>C5: the text written for an updated key\<close>

text \<open>
  C5. For every key of the partial update, the one pair of that name holds the text
  that \<open>JSON.stringify\<close> returns for the new value, whatever the type of the value, and
  the text \<open>undefined\<close> when \<open>JSON.stringify\<close> returns no text. The number 5 is written as
  \<open>5\<close>, the string \<open>x\<close> with its quotes; the value \<open>undefined\<close> has no JSON text.
\<close>

theorem createSafeURL_writes_text:
  assumes "distinct (map fst newParams)" and "(key, v) \<in> set newParams"
  shows "filter (\<lambda>(n, t). n = key) (updated_query tostr pathname searchParams newParams h) =
           [(key, case JSON_stringify tostr v of None \<Rightarrow> ''undefined'' | Some t \<Rightarrow> t)]
       \<and> JSON_stringify tostr (JNum (Fin 5)) = Some ''5''
       \<and> JSON_stringify tostr (JStr ''x'') = Some [CHR 0x22, CHR ''x'', CHR 0x22]
       \<and> JSON_stringify tostr JUndefined = None"
  using entries_of_updated_key_value [OF assms, of tostr "objs h searchParams"]
  by (simp add: updated_query_eq json_eval)

text \<open>
  The theorem at the update \<open>{q: "x", count: 5}\<close> and its key \<open>q\<close>.
\<close>

theorem createSafeURL_writes_text_witness:
  "distinct (map fst [(''q'', JStr ''x''), (''count'', JNum (Fin 5))])
   \<and> (''q'', JStr ''x'') \<in> set [(''q'', JStr ''x''), (''count'', JNum (Fin 5))]
   \<and> filter (\<lambda>(n, t). n = ''q'')
        (updated_query tostr_example ''/about'' 0 [(''q'', JStr ''x''), (''count'', JNum (Fin 5))] (heap_of [(''q'', ''old'')])) =
      [(''q'', [CHR 0x22, CHR ''x'', CHR 0x22])]"
  using createSafeURL_writes_text [where key = "''q''" and v = "JStr ''x''"
      and newParams = "[(''q'', JStr ''x''), (''count'', JNum (Fin 5))]"
      and tostr = tostr_example and pathname = "''/about''" and searchParams = 0
      and h = "heap_of [(''q'', ''old'')]"]
  by (simp add: json_eval)

text \<open>
  The update \<open>{count: undefined}\<close>: the value has no JSON text, and the query holds
  \<open>count=undefined\<close>.
\<close>

theorem createSafeURL_undefined_counterexample:
  "JSON_stringify tostr_example JUndefined = None
   \<and> updated_query tostr_example ''/about'' 0 [(''count'', JUndefined)] (heap_of []) = [(''count'', ''undefined'')]
   \<and> fst (createSafeURL tostr_example ''/about'' 0 [(''count'', JUndefined)] (heap_of [])) = ''/about?count=undefined''"
  by (simp add: updated_query_eq createSafeURL_eq updated_entries_def heap_of_def set_entries_def url_eval json_eval)

subsection \<open>C6: the shape of the result\<close>

text \<open>
  C6. \<open>createSafeURL\<close> returns the path, \<open>?\<close> and the serialised pairs. The pairs are empty
  exactly when the current query and the partial update are both empty, and the result
  is then the path followed by \<open>?\<close>.
\<close>

theorem createSafeURL_result:
  "fst (createSafeURL tostr pathname searchParams newParams h) =
     pathname @ ''?'' @ serialize (updated_query tostr pathname searchParams newParams h)
   \<and> (updated_query tostr pathname searchParams newParams h = [] \<longleftrightarrow> objs h searchParams = [] \<and> newParams = [])
   \<and> (objs h searchParams = [] \<and> newParams = [] \<longrightarrow>
        fst (createSafeURL tostr pathname searchParams newParams h) = pathname @ ''?'')"
  by (simp add: createSafeURL_url updated_query_eq updated_entries_Nil_iff updated_entries_Nil serialize_def)

text \<open>
  The theorem at the empty query and the empty update.
\<close>

theorem createSafeURL_result_witness:
  "objs (heap_of []) 0 = [] \<and> fst (createSafeURL tostr_example ''/about'' 0 [] (heap_of [])) = ''/about?''"
  using createSafeURL_result [where tostr = tostr_example and pathname = "''/about''" and searchParams = 0
      and newParams = "[]" and h = "heap_of []"]
  by (simp add: heap_of_def serialize_def)

text \<open>
  With an empty query and an empty update the result ends in \<open>?\<close> although the query was
  empty before the call.
\<close>

theorem createSafeURL_empty_counterexample:
  "\<not> (updated_query tostr_example ''/about'' 0 [] (heap_of []) = []
       \<and> fst (createSafeURL tostr_example ''/about'' 0 [] (heap_of [])) = ''/about?''
      \<longrightarrow> objs (heap_of []) 0 \<noteq> [])"
  by (simp add: updated_query_eq createSafeURL_eq updated_entries_def heap_of_def serialize_def)

subsection \<open>C7: a rejected field without fallback\<close>

text \<open>
  C7. If the type of a field rejects the value the field is given (the raw string of
  the key, or \<open>undefined\<close> when the key is absent), \<open>safeSearchParams\<close> returns the error
  that \<open>parse\<close> throws, and the error has an issue whose path is the key of the field. A
  number type rejects an absent key; \<open>{count: z.coerce.number()}\<close> fails on the empty
  query, as the README says.
\<close>

theorem safeSearchParams_rejected_field_fails:
  assumes "(key, t) \<in> set schema"
  shows "(\<not> isValid (ztype_parse rest [key] t (raw_value (objs h searchParams) key)) \<longrightarrow>
            (\<exists>is. safeSearchParams rest schema searchParams h = Inl (ZodError is) \<and>
                  (\<exists>i \<in> set is. path i = [key])))
       \<and> ((\<exists>coerce checks. t = ZodNumber coerce checks) \<and> key \<notin> fst ` set (objs h searchParams) \<longrightarrow>
            (\<exists>is. safeSearchParams rest schema searchParams h = Inl (ZodError is) \<and>
                  (\<exists>i \<in> set is. path i = [key])))
       \<and> safeSearchParams rest [(''count'', z_coerce_number)] 0 (heap_of []) =
            Inl (ZodError [invalid_type [''count'']])"
proof -
  have rejected: "\<exists>is. safeSearchParams rest schema searchParams h = Inl (ZodError is) \<and>
                  (\<exists>i \<in> set is. path i = [key])"
    if "\<not> isValid (ztype_parse rest [key] t (raw_value (objs h searchParams) key))"
    unfolding safeSearchParams_def
    using that by (intro parse_fails [OF assms]) (simp add: obj_get_fromEntries)
  have absent: "\<exists>is. safeSearchParams rest schema searchParams h = Inl (ZodError is) \<and>
                  (\<exists>i \<in> set is. path i = [key])"
    if "\<exists>coerce checks. t = ZodNumber coerce checks" "key \<notin> fst ` set (objs h searchParams)"
  proof (rule rejected)
    from that show "\<not> isValid (ztype_parse rest [key] t (raw_value (objs h searchParams) key))"
      using number_rejects_undefined [of rest "[key]"]
      by (auto simp: raw_value_absent simp del: ztype_parse.simps)
  qed
  have c1: "\<not> isValid (ztype_parse rest [key] t (raw_value (objs h searchParams) key)) \<longrightarrow>
            (\<exists>is. safeSearchParams rest schema searchParams h = Inl (ZodError is) \<and>
                  (\<exists>i \<in> set is. path i = [key]))"
    by (intro impI) (rule rejected)
  have c2: "(\<exists>coerce checks. t = ZodNumber coerce checks) \<and> key \<notin> fst ` set (objs h searchParams) \<longrightarrow>
            (\<exists>is. safeSearchParams rest schema searchParams h = Inl (ZodError is) \<and>
                  (\<exists>i \<in> set is. path i = [key]))"
    by (intro impI) (elim conjE, rule absent, assumption+)
  show ?thesis
    using c1 c2 count_required [of rest]
    by (intro conjI) assumption+
qed

text \<open>
  The theorem at the field \<open>count\<close> (coerced number, min 0, no fallback) and the query
  \<open>count=-3\<close>.
\<close>

theorem safeSearchParams_rejected_field_fails_witness:
  "(''count'', ZodNumber True [min_check (Fin 0) True]) \<in> set [(''count'', ZodNumber True [min_check (Fin 0) True])]
   \<and> ztype_parse rest_example [''count''] (ZodNumber True [min_check (Fin 0) True])
        (raw_value (objs (heap_of [(''count'', ''-3'')]) 0) ''count'') = DIRTY (JNum (Fin (-3))) [too_small [''count'']]
   \<and> safeSearchParams rest_example [(''count'', ZodNumber True [min_check (Fin 0) True])] 0 (heap_of [(''count'', ''-3'')]) =
        Inl (ZodError [too_small [''count'']])"
proof -
  have m: "(''count'', ZodNumber True [min_check (Fin 0) True]) \<in> set [(''count'', ZodNumber True [min_check (Fin 0) True])]"
    by simp
  have r: "ztype_parse rest_example [''count''] (ZodNumber True [min_check (Fin 0) True])
        (raw_value (objs (heap_of [(''count'', ''-3'')]) 0) ''count'') = DIRTY (JNum (Fin (-3))) [too_small [''count'']]"
    by (simp add: raw_value_def heap_of_def number_eval)
  note t = safeSearchParams_rejected_field_fails [OF m, where rest = rest_example and searchParams = 0
      and h = "heap_of [(''count'', ''-3'')]"]
  have "\<not> isValid (ztype_parse rest_example [''count''] (ZodNumber True [min_check (Fin 0) True])
        (raw_value (objs (heap_of [(''count'', ''-3'')]) 0) ''count''))"
    by (simp only: r isValid.simps simp_thms)
  from t [THEN conjunct1, rule_format, OF this]
  obtain "is" where "safeSearchParams rest_example [(''count'', ZodNumber True [min_check (Fin 0) True])] 0
      (heap_of [(''count'', ''-3'')]) = Inl (ZodError is)"
    by (elim exE conjE)
  then have "safeSearchParams rest_example [(''count'', ZodNumber True [min_check (Fin 0) True])] 0 (heap_of [(''count'', ''-3'')]) =
        Inl (ZodError [too_small [''count'']])"
    by (auto simp: parse_eval number_eval)
  with m r show ?thesis by simp
qed

text \<open>
  An absent key does not always fail: \<open>{dark: z.coerce.boolean()}\<close> declares no fallback,
  and the empty query gives \<open>{dark: false}\<close>; \<open>{dark: z.any()}\<close> gives the empty object.
\<close>

theorem safeSearchParams_absent_counterexample:
  "raw_value (objs (heap_of []) 0) ''dark'' = JUndefined
   \<and> safeSearchParams rest_example [(''dark'', ZodBoolean True)] 0 (heap_of []) = Inr [(''dark'', JBool False)]
   \<and> safeSearchParams rest_example [(''dark'', ZodAny)] 0 (heap_of []) = Inr []"
  by (simp add: parse_eval raw_value_def)

subsection \<open>C8: createSafeURL is deterministic\<close>

text \<open>
  C8. Two calls of \<open>createSafeURL\<close> with the same arguments, one after the other, return
  the same string: the second call runs on the heap the first one left, and finds the
  current query as the first one found it.
\<close>

theorem createSafeURL_deterministic:
  assumes "searchParams < free h"
  shows "fst (createSafeURL tostr pathname searchParams newParams
                (snd (createSafeURL tostr pathname searchParams newParams h))) =
         fst (createSafeURL tostr pathname searchParams newParams h)"
  using assms by (simp add: createSafeURL_eq)

text \<open>
  The theorem at the query \<open>hello=world\<close> and the update \<open>{count: 1}\<close>.
\<close>

theorem createSafeURL_deterministic_witness:
  "(0::nat) < free (heap_of [(''hello'', ''world'')])
   \<and> fst (createSafeURL tostr_example ''/about'' 0 [(''count'', JNum (Fin 1))]
        (snd (createSafeURL tostr_example ''/about'' 0 [(''count'', JNum (Fin 1))] (heap_of [(''hello'', ''world'')])))) =
      ''/about?hello=world&count=1''"
proof -
  have live: "(0::nat) < free (heap_of [(''hello'', ''world'')])"
    by (simp add: heap_of_def)
  have first: "fst (createSafeURL tostr_example ''/about'' 0 [(''count'', JNum (Fin 1))] (heap_of [(''hello'', ''world'')])) =
      ''/about?hello=world&count=1''"
    by (simp add: createSafeURL_eq updated_entries_def heap_of_def set_entries_def url_eval json_eval)
  from createSafeURL_deterministic [OF live, of tostr_example "''/about''" "[(''count'', JNum (Fin 1))]"] first live
  show ?thesis by simp
qed

subsection \<open>C9: createSafeURL does not mutate the current query\<close>

text \<open>
  C9. After a call of \<open>createSafeURL\<close> the object of the current query holds the pairs it
  held before, in the same order: the loop writes to a copy.
\<close>

theorem createSafeURL_no_mutation:
  assumes "searchParams < free h"
  shows "objs (snd (createSafeURL tostr pathname searchParams newParams h)) searchParams = objs h searchParams"
  using assms by (simp add: createSafeURL_eq)

text \<open>
  The theorem at the query \<open>count=1\<close> and the update \<open>{count: 2}\<close>.
\<close>

theorem createSafeURL_no_mutation_witness:
  "(0::nat) < free (heap_of [(''count'', ''1'')])
   \<and> objs (snd (createSafeURL tostr_example ''/about'' 0 [(''count'', JNum (Fin 2))] (heap_of [(''count'', ''1'')]))) 0 =
      [(''count'', ''1'')]"
  using createSafeURL_no_mutation [where tostr = tostr_example and pathname = "''/about''" and searchParams = 0
      and newParams = "[(''count'', JNum (Fin 2))]" and h = "heap_of [(''count'', ''1'')]"]
  by (simp add: heap_of_def)

subsection \<open>C10: a repeated key\<close>

text \<open>
  C10. When the query has several pairs of one key, \<open>Object.fromEntries\<close> keeps the
  value of the last one, and the validated state holds for that field what its type
  makes of that value. The query \<open>count=5&count=7\<close> yields \<open>{count: 7}\<close>.
\<close>

theorem safeSearchParams_last_occurrence:
  assumes "objs h searchParams = es1 @ (key, s) # es2" and "key \<notin> fst ` set es2"
  shows "obj_get (Object_fromEntries (objs h searchParams)) key = JStr s
       \<and> (\<forall>state. distinct (map fst schema) \<and> (key, t) \<in> set schema \<and>
              safeSearchParams rest schema searchParams h = Inr state \<longrightarrow>
              ztype_parse rest [key] t (JStr s) = OK (obj_get state key))
       \<and> safeSearchParams rest searchParamsSchema 0 (heap_of [(''count'', ''5''), (''count'', ''7'')]) =
            Inr [(''count'', JNum (Fin 7))]"
proof -
  have g: "obj_get (Object_fromEntries (objs h searchParams)) key = JStr s"
    unfolding assms(1) using assms(2) by (rule fromEntries_last)
  have f: "ztype_parse rest [key] t (JStr s) = OK (obj_get state key)"
    if "distinct (map fst schema)" "(key, t) \<in> set schema"
      "safeSearchParams rest schema searchParams h = Inr state" for state
  proof -
    from that(3) have "parse rest schema (Object_fromEntries (objs h searchParams)) = Inr state"
      by (simp add: safeSearchParams_def)
    from parse_Inr [OF this that(1,2)] g show ?thesis by auto
  qed
  have c2: "\<forall>state. distinct (map fst schema) \<and> (key, t) \<in> set schema \<and>
              safeSearchParams rest schema searchParams h = Inr state \<longrightarrow>
              ztype_parse rest [key] t (JStr s) = OK (obj_get state key)"
    by (intro allI impI) (elim conjE, rule f, assumption+)
  show ?thesis
    using g c2 count_twice [of rest] by (intro conjI) assumption+
qed

text \<open>
  The theorem at the query \<open>count=5&count=7\<close>.
\<close>

theorem safeSearchParams_last_occurrence_witness:
  "objs (heap_of [(''count'', ''5''), (''count'', ''7'')]) 0 = [(''count'', ''5'')] @ (''count'', ''7'') # []
   \<and> ''count'' \<notin> fst ` set ([] :: entries)
   \<and> obj_get (Object_fromEntries (objs (heap_of [(''count'', ''5''), (''count'', ''7'')]) 0)) ''count'' = JStr ''7''"
proof -
  have a: "objs (heap_of [(''count'', ''5''), (''count'', ''7'')]) 0 = [(''count'', ''5'')] @ (''count'', ''7'') # []"
    by (simp add: heap_of_def)
  have b: "''count'' \<notin> fst ` set ([] :: entries)" by simp
  from safeSearchParams_last_occurrence [OF a b] a b show ?thesis by simp
qed

end
